theory Spec2Isabelle
  imports Main "HOL-Library.Sublist"
begin

section \<open>Values and items\<close>

text \<open>
  The items of a table are string-keyed dictionaries of dynamically typed values
  (\<^verbatim>\<open>interface DynamoDBItem { [key: string]: any }\<close>). A value is one of the
  JavaScript values the document client produces. A nested object keeps its entries as an
  association list; an item itself is a map from attribute names to values, and an
  attribute that is absent from the item is a key outside the map's domain. An item is a
  plain object: the map holds its own attributes, and the names every object inherits
  from \<^verbatim>\<open>Object.prototype\<close> are the same for all items. A string is the list of
  its code units, and the program looks at ASCII characters only.
\<close>

datatype jsval =
    JUndefined
  | JNull
  | JBool bool
  | JNum int
  | JStr string
  | JList "jsval list"
  | JObj "(string \<times> jsval) list"
  | JBuiltin string

type_synonym DynamoDBItem = "string \<rightharpoonup> jsval"

text \<open>\<^verbatim>\<open>!x\<close> is the negation of the truthiness of \<open>x\<close>.\<close>

fun truthy :: "jsval \<Rightarrow> bool" where
  "truthy JUndefined = False"
| "truthy JNull = False"
| "truthy (JBool b) = b"
| "truthy (JNum n) = (n \<noteq> 0)"
| "truthy (JStr s) = (s \<noteq> [])"
| "truthy (JList xs) = True"
| "truthy (JObj kvs) = True"
| "truthy (JBuiltin n) = True"

fun typeof :: "jsval \<Rightarrow> string" where
  "typeof JUndefined = ''undefined''"
| "typeof JNull = ''object''"
| "typeof (JBool b) = ''boolean''"
| "typeof (JNum n) = ''number''"
| "typeof (JStr s) = ''string''"
| "typeof (JList xs) = ''object''"
| "typeof (JObj kvs) = ''object''"
| "typeof (JBuiltin n) = (if n = ''__proto__'' then ''object'' else ''function'')"

fun the_str :: "jsval \<Rightarrow> string" where
  "the_str (JStr s) = s"
| "the_str v = []"

text \<open>
  The property names of \<^verbatim>\<open>Object.prototype\<close> (ECMAScript, with its annex B).
  A plain object has each of them without having it as an attribute of its own. The value
  found under an inherited name is \<open>JBuiltin\<close> of the name: a function, or for
  \<^verbatim>\<open>__proto__\<close> the prototype object.
\<close>

definition object_prototype_names :: "string list" where
  "object_prototype_names =
     [''constructor'', ''__defineGetter__'', ''__defineSetter__'', ''hasOwnProperty'',
      ''__lookupGetter__'', ''__lookupSetter__'', ''isPrototypeOf'', ''propertyIsEnumerable'',
      ''toString'', ''valueOf'', ''__proto__'', ''toLocaleString'']"

definition inherited :: "string \<Rightarrow> bool" where
  "inherited k = (k \<in> set object_prototype_names)"

text \<open>
  \<^verbatim>\<open>item[k]\<close>: the item's own value under \<open>k\<close>, else the inherited one, else
  \<^verbatim>\<open>undefined\<close>.
\<close>

definition get_prop :: "DynamoDBItem \<Rightarrow> string \<Rightarrow> jsval" where
  "get_prop it k =
     (case it k of
        Some v \<Rightarrow> v
      | None \<Rightarrow> if inherited k then JBuiltin k else JUndefined)"

text \<open>
  \<^verbatim>\<open>k in item\<close>: the item has the property \<open>k\<close>, its own or inherited, whatever
  the value under it.
\<close>

definition js_in :: "string \<Rightarrow> DynamoDBItem \<Rightarrow> bool" where
  "js_in k it = (it k \<noteq> None \<or> inherited k)"

text \<open>
  \<^verbatim>\<open>obj[k] = v\<close> on a plain object: the object gets \<open>k\<close> as its own attribute,
  but for \<^verbatim>\<open>__proto__\<close>, which is an accessor of \<^verbatim>\<open>Object.prototype\<close> whose
  setter adds no attribute.
\<close>

definition set_prop :: "DynamoDBItem \<Rightarrow> string \<Rightarrow> jsval \<Rightarrow> DynamoDBItem" where
  "set_prop obj k v = (if k = ''__proto__'' then obj else obj(k \<mapsto> v))"

text \<open>A thrown value: an \<^verbatim>\<open>Error\<close> with its message, or any other value.\<close>

datatype js_exn = JsError string | JsThrown jsval

section \<open>Owner-id derivation\<close>

text \<open>\<^verbatim>\<open>s.split(c)\<close> for a one-character separator: the segments between the separators.\<close>

fun split_on :: "char \<Rightarrow> string \<Rightarrow> string list" where
  "split_on c [] = [[]]"
| "split_on c (x # xs) =
     (if x = c then [] # split_on c xs
      else (case split_on c xs of
              [] \<Rightarrow> [[x]]
            | seg # segs \<Rightarrow> (x # seg) # segs))"

text \<open>\<^verbatim>\<open>\d\<close> (no unicode flag) is the class \<^verbatim>\<open>[0-9]\<close>.\<close>

definition is_digit :: "char \<Rightarrow> bool" where
  "is_digit c = (c \<in> set ''0123456789'')"

text \<open>
  Matching \<^verbatim>\<open>\d{n}\<close> at the head of a string: the rest of the string after exactly
  \<open>n\<close> digits, when the string starts with them.
\<close>

fun consume_digits :: "nat \<Rightarrow> string \<Rightarrow> string option" where
  "consume_digits 0 s = Some s"
| "consume_digits (Suc n) [] = None"
| "consume_digits (Suc n) (c # cs) = (if is_digit c then consume_digits n cs else None)"

text \<open>
  \<^verbatim>\<open>/^\d{12}$/.test(s)\<close>: \<^verbatim>\<open>^\<close> anchors the match at the start of the
  input and \<^verbatim>\<open>$\<close> (no multiline flag) at its end.
\<close>

definition test_d12 :: "string \<Rightarrow> bool" where
  "test_d12 s = (consume_digits 12 s = Some [])"

definition getAccountIdFromArn :: "jsval \<Rightarrow> js_exn + string" where
  "getAccountIdFromArn v =
     (if \<not> truthy v \<or> typeof v \<noteq> ''string''
      then Inl (JsError ''Invalid ARN: ARN must be a non-empty string'')
      else
        let s = the_str v;
            arnParts = split_on (CHR '':'') s
        in
          if length arnParts < 6
          then Inl (JsError (''Invalid ARN format: '' @ s @
                 ''. Expected format: arn:partition:service:region:account-id:resource''))
          else
            let accountId = arnParts ! 4
            in
              if accountId = []
              then Inl (JsError (''No account ID found in ARN: '' @ s))
              else if \<not> test_d12 accountId
              then Inl (JsError (''Invalid account ID format: '' @ accountId @
                     ''. Account ID must be 12 digits''))
              else Inr accountId)"

section \<open>Attribute filter\<close>

definition filterItemsFromTable :: "DynamoDBItem list \<Rightarrow> string \<Rightarrow> DynamoDBItem list" where
  "filterItemsFromTable its attributeName =
     filter (\<lambda>it. \<not> js_in attributeName it) its"

section \<open>The table store client\<close>

text \<open>
  The two commands the program sends, with the fields it sets, and the fields of the
  replies it reads. The update is always the single-attribute write
  \<^verbatim>\<open>SET #attr = :val\<close>.
\<close>

record ScanCommandInput =
  Scan_TableName :: string
  Limit :: nat
  ExclusiveStartKey :: "DynamoDBItem option"

record ScanCommandOutput =
  Items :: "DynamoDBItem list option"
  LastEvaluatedKey :: "DynamoDBItem option"

record UpdateCommandInput =
  Update_TableName :: string
  Key :: DynamoDBItem
  UpdateExpression :: string
  ExpressionAttributeNames :: "string \<rightharpoonup> string"
  ExpressionAttributeValues :: "string \<rightharpoonup> jsval"
  ReturnValues :: string

record UpdateCommandOutput =
  Attributes :: "DynamoDBItem option"

text \<open>
  \<^verbatim>\<open>docClient.send\<close> is a call to an external service. The client is a parameter of
  the model: for each command, a function from the store's state to a reply (or a thrown
  value) and the store's next state.
\<close>

record 's docClient =
  sendScan :: "ScanCommandInput \<Rightarrow> 's \<Rightarrow> (js_exn + ScanCommandOutput) \<times> 's"
  sendUpdate :: "UpdateCommandInput \<Rightarrow> 's \<Rightarrow> (js_exn + UpdateCommandOutput) \<times> 's"

text \<open>
  The world a run acts on: the store's state and, in order, every call made so far with
  its outcome.
\<close>

datatype event =
    ScanCall ScanCommandInput "js_exn + ScanCommandOutput"
  | UpdateCall UpdateCommandInput "js_exn + UpdateCommandOutput"

record 's world =
  store :: 's
  calls :: "event list"

definition send_scan ::
  "'s docClient \<Rightarrow> ScanCommandInput \<Rightarrow> 's world \<Rightarrow> (js_exn + ScanCommandOutput) \<times> 's world" where
  "send_scan dc inp w =
     (case sendScan dc inp (store w) of
        (r, s') \<Rightarrow> (r, \<lparr>store = s', calls = calls w @ [ScanCall inp r]\<rparr>))"

definition send_update ::
  "'s docClient \<Rightarrow> UpdateCommandInput \<Rightarrow> 's world \<Rightarrow> (js_exn + UpdateCommandOutput) \<times> 's world" where
  "send_update dc inp w =
     (case sendUpdate dc inp (store w) of
        (r, s') \<Rightarrow> (r, \<lparr>store = s', calls = calls w @ [UpdateCall inp r]\<rparr>))"

section \<open>Result types\<close>

record ScanResult =
  items :: "DynamoDBItem list"
  lastEvaluatedKey :: "DynamoDBItem option"
  hasMoreItems :: bool

record UpdateResult =
  success :: bool
  item :: "DynamoDBItem option"
  error :: "string option"

record ProcessingStats =
  totalScanned :: nat
  itemsWithoutAttribute :: nat
  successfulUpdates :: nat
  failedUpdates :: nat

record BatchCounts =
  successful :: nat
  failed :: nat

section \<open>Scanning one page\<close>

text \<open>
  A continuation token is an object when the store returns one and \<^verbatim>\<open>undefined\<close>
  otherwise; an object is truthy and \<^verbatim>\<open>undefined\<close> is falsy.
\<close>

fun truthy_key :: "DynamoDBItem option \<Rightarrow> bool" where
  "truthy_key None = False"
| "truthy_key (Some k) = True"

text \<open>The \<^verbatim>\<open>catch\<close> of \<^verbatim>\<open>scanTableBatch\<close> logs the error and throws it again.\<close>

definition scan_command :: "string \<Rightarrow> nat \<Rightarrow> DynamoDBItem option \<Rightarrow> ScanCommandInput" where
  "scan_command tableName limit lek =
     \<lparr>Scan_TableName = tableName, Limit = limit, ExclusiveStartKey = lek\<rparr>"

definition scanTableBatch ::
  "'s docClient \<Rightarrow> string \<Rightarrow> nat \<Rightarrow> DynamoDBItem option \<Rightarrow> 's world
     \<Rightarrow> (js_exn + ScanResult) \<times> 's world" where
  "scanTableBatch dc tableName limit lek w =
     (let command = scan_command tableName limit lek
      in case send_scan dc command w of
           (Inl e, w') \<Rightarrow> (Inl e, w')
         | (Inr response, w') \<Rightarrow>
             (Inr \<lparr>items = (case Items response of None \<Rightarrow> [] | Some xs \<Rightarrow> xs),
                   lastEvaluatedKey = LastEvaluatedKey response,
                   hasMoreItems = truthy_key (LastEvaluatedKey response)\<rparr>, w'))"

section \<open>Updating one item\<close>

text \<open>
  The key object: for each listed name under which the item has a value other than
  \<^verbatim>\<open>undefined\<close>, in the listed order, that value.
\<close>

definition build_key :: "DynamoDBItem \<Rightarrow> string list \<Rightarrow> DynamoDBItem" where
  "build_key it keyAttributes =
     foldl (\<lambda>key keyAttr.
              if get_prop it keyAttr \<noteq> JUndefined
              then set_prop key keyAttr (get_prop it keyAttr)
              else key)
           Map.empty keyAttributes"

definition update_command :: "string \<Rightarrow> DynamoDBItem \<Rightarrow> string \<Rightarrow> string \<Rightarrow> UpdateCommandInput" where
  "update_command tableName key attributeName attributeValue =
     \<lparr>Update_TableName = tableName,
      Key = key,
      UpdateExpression = ''SET #attr = :val'',
      ExpressionAttributeNames = [''#attr'' \<mapsto> attributeName],
      ExpressionAttributeValues = ['':val'' \<mapsto> JStr attributeValue],
      ReturnValues = ''ALL_NEW''\<rparr>"

text \<open>
  Whatever the call throws is caught and turned into a failed result:
  \<^verbatim>\<open>error instanceof Error ? error.message : 'Unknown error'\<close>.
\<close>

definition updateItem ::
  "'s docClient \<Rightarrow> string \<Rightarrow> DynamoDBItem \<Rightarrow> string \<Rightarrow> string \<Rightarrow> string list \<Rightarrow> 's world
     \<Rightarrow> UpdateResult \<times> 's world" where
  "updateItem dc tableName it attributeName attributeValue keyAttributes w =
     (let key = build_key it keyAttributes;
          command = update_command tableName key attributeName attributeValue
      in case send_update dc command w of
           (Inr response, w') \<Rightarrow>
             (\<lparr>success = True, item = Attributes response, error = None\<rparr>, w')
         | (Inl e, w') \<Rightarrow>
             (\<lparr>success = False, item = None,
               error = Some (case e of JsError m \<Rightarrow> m | JsThrown x \<Rightarrow> ''Unknown error'')\<rparr>, w'))"

section \<open>Updating the selected items of a page\<close>

text \<open>
  The \<^verbatim>\<open>for\<close> loop of \<^verbatim>\<open>batchUpdateItems\<close>, with its two counters. The
  derivation is called outside any \<^verbatim>\<open>try\<close>: what it throws leaves the loop.
\<close>

fun batchLoop ::
  "'s docClient \<Rightarrow> string \<Rightarrow> DynamoDBItem list \<Rightarrow> string \<Rightarrow> string list \<Rightarrow> nat \<Rightarrow> nat \<Rightarrow> 's world
     \<Rightarrow> (js_exn + BatchCounts) \<times> 's world" where
  "batchLoop dc tableName [] attributeName keyAttributes nsucc nfail w =
     (Inr \<lparr>successful = nsucc, failed = nfail\<rparr>, w)"
| "batchLoop dc tableName (it # rest) attributeName keyAttributes nsucc nfail w =
     (case getAccountIdFromArn (get_prop it ''AgentArn'') of
        Inl e \<Rightarrow> (Inl e, w)
      | Inr accountId \<Rightarrow>
          (case updateItem dc tableName it attributeName accountId keyAttributes w of
             (result, w') \<Rightarrow>
               if success result
               then batchLoop dc tableName rest attributeName keyAttributes (nsucc + 1) nfail w'
               else batchLoop dc tableName rest attributeName keyAttributes nsucc (nfail + 1) w'))"

definition batchUpdateItems ::
  "'s docClient \<Rightarrow> string \<Rightarrow> DynamoDBItem list \<Rightarrow> string \<Rightarrow> string list \<Rightarrow> 's world
     \<Rightarrow> (js_exn + BatchCounts) \<times> 's world" where
  "batchUpdateItems dc tableName its attributeName keyAttributes w =
     batchLoop dc tableName its attributeName keyAttributes 0 0 w"

section \<open>The run\<close>

text \<open>
  The \<^verbatim>\<open>do ... while (lastEvaluatedKey)\<close> loop of \<^verbatim>\<open>processTable\<close>. The store
  decides whether a token comes back, so the loop need not end: the fuel bounds the number
  of iterations, and a run that has none left has no result (\<open>None\<close>). A thrown value is
  \<open>Some (Inl e)\<close>, returned statistics are \<open>Some (Inr stats)\<close>.
\<close>

fun processLoop ::
  "nat \<Rightarrow> 's docClient \<Rightarrow> string \<Rightarrow> string \<Rightarrow> string \<Rightarrow> string list
     \<Rightarrow> ProcessingStats \<Rightarrow> DynamoDBItem option \<Rightarrow> bool \<Rightarrow> 's world
     \<Rightarrow> (js_exn + ProcessingStats) option \<times> 's world" where
  "processLoop 0 dc tableName missingAttributeName newAttributeName keyAttributes
       stats lek isFirstBatch w = (None, w)"
| "processLoop (Suc fuel) dc tableName missingAttributeName newAttributeName keyAttributes
       stats lek isFirstBatch w =
     (let batchSize = (if isFirstBatch then 50 else 100)
      in case scanTableBatch dc tableName batchSize lek w of
           (Inl e, w1) \<Rightarrow> (Some (Inl e), w1)
         | (Inr scanResult, w1) \<Rightarrow>
             let scannedItems = items scanResult;
                 stats1 = stats\<lparr>totalScanned := totalScanned stats + length scannedItems\<rparr>;
                 itemsToUpdate = filterItemsFromTable scannedItems missingAttributeName;
                 stats2 = stats1\<lparr>itemsWithoutAttribute :=
                                   itemsWithoutAttribute stats1 + length itemsToUpdate\<rparr>
             in case (if length itemsToUpdate > 0
                      then (case batchUpdateItems dc tableName itemsToUpdate
                                   newAttributeName keyAttributes w1 of
                              (Inl e, w2) \<Rightarrow> (Inl e, w2)
                            | (Inr updateResults, w2) \<Rightarrow>
                                (Inr (stats2\<lparr>successfulUpdates :=
                                               successfulUpdates stats2 + successful updateResults,
                                             failedUpdates :=
                                               failedUpdates stats2 + failed updateResults\<rparr>), w2))
                      else (Inr stats2, w1)) of
                  (Inl e, w2) \<Rightarrow> (Some (Inl e), w2)
                | (Inr stats3, w2) \<Rightarrow>
                    if truthy_key (lastEvaluatedKey scanResult)
                    then processLoop fuel dc tableName missingAttributeName newAttributeName
                           keyAttributes stats3 (lastEvaluatedKey scanResult) False w2
                    else (Some (Inr stats3), w2))"

text \<open>
  \<^verbatim>\<open>keyAttributes: string[] = ['id']\<close>: an omitted argument (\<open>None\<close>) takes the
  default.
\<close>

definition processTable ::
  "nat \<Rightarrow> 's docClient \<Rightarrow> string \<Rightarrow> string \<Rightarrow> string \<Rightarrow> string list option \<Rightarrow> 's world
     \<Rightarrow> (js_exn + ProcessingStats) option \<times> 's world" where
  "processTable fuel dc tableName missingAttributeName newAttributeName keyAttributes w =
     processLoop fuel dc tableName missingAttributeName newAttributeName
       (case keyAttributes of None \<Rightarrow> [''id''] | Some ka \<Rightarrow> ka)
       \<lparr>totalScanned = 0, itemsWithoutAttribute = 0, successfulUpdates = 0, failedUpdates = 0\<rparr>
       None True w"

definition init_world :: "'s \<Rightarrow> 's world" where
  "init_world s = \<lparr>store = s, calls = []\<rparr>"

section \<open>Observing a run\<close>

text \<open>The scan calls and the update calls of a log, each in order, with their outcomes.\<close>

fun scan_calls :: "event list \<Rightarrow> (ScanCommandInput \<times> (js_exn + ScanCommandOutput)) list" where
  "scan_calls [] = []"
| "scan_calls (ScanCall inp r # es) = (inp, r) # scan_calls es"
| "scan_calls (UpdateCall inp r # es) = scan_calls es"

fun update_calls :: "event list \<Rightarrow> (UpdateCommandInput \<times> (js_exn + UpdateCommandOutput)) list" where
  "update_calls [] = []"
| "update_calls (ScanCall inp r # es) = update_calls es"
| "update_calls (UpdateCall inp r # es) = (inp, r) # update_calls es"

text \<open>The update calls of a log that succeeded, and those that failed.\<close>

definition count_ok :: "event list \<Rightarrow> nat" where
  "count_ok evs = length (filter (\<lambda>u. \<not> isl (snd u)) (update_calls evs))"

definition count_failed :: "event list \<Rightarrow> nat" where
  "count_failed evs = length (filter (\<lambda>u. isl (snd u)) (update_calls evs))"

text \<open>The items a scan reply carries (\<^verbatim>\<open>response.Items || []\<close>); a failed call carries none.\<close>

definition page_items :: "ScanCommandOutput \<Rightarrow> DynamoDBItem list" where
  "page_items response = (case Items response of None \<Rightarrow> [] | Some xs \<Rightarrow> xs)"

fun returned_items :: "js_exn + ScanCommandOutput \<Rightarrow> DynamoDBItem list" where
  "returned_items (Inl e) = []"
| "returned_items (Inr response) = page_items response"

text \<open>
  The shape of the scan calls of a run that starts with the given first-batch flag and
  token: each call's input, and what may follow each outcome.
\<close>

fun chained ::
  "string \<Rightarrow> bool \<Rightarrow> DynamoDBItem option
     \<Rightarrow> (ScanCommandInput \<times> (js_exn + ScanCommandOutput)) list \<Rightarrow> bool" where
  "chained t isFirst lek [] = True"
| "chained t isFirst lek ((inp, out) # rest) =
     (inp = scan_command t (if isFirst then 50 else 100) lek \<and>
      (case out of
         Inl e \<Rightarrow> rest = []
       | Inr response \<Rightarrow>
           (if LastEvaluatedKey response = None then rest = []
            else chained t False (LastEvaluatedKey response) rest)))"

section \<open>A table store\<close>










section \<open>A replaying client\<close>

text \<open>
  A client that answers the calls from two scripts of replies, one per kind of command,
  whatever the command says; a call beyond the end of its script throws.
\<close>

record replay =
  scan_replies :: "(js_exn + ScanCommandOutput) list"
  update_replies :: "(js_exn + UpdateCommandOutput) list"

definition replay_scan ::
  "ScanCommandInput \<Rightarrow> replay \<Rightarrow> (js_exn + ScanCommandOutput) \<times> replay" where
  "replay_scan inp s =
     (case scan_replies s of
        [] \<Rightarrow> (Inl (JsError ''no reply''), s)
      | r # rs \<Rightarrow> (r, s\<lparr>scan_replies := rs\<rparr>))"

definition replay_update ::
  "UpdateCommandInput \<Rightarrow> replay \<Rightarrow> (js_exn + UpdateCommandOutput) \<times> replay" where
  "replay_update inp s =
     (case update_replies s of
        [] \<Rightarrow> (Inl (JsError ''no reply''), s)
      | r # rs \<Rightarrow> (r, s\<lparr>update_replies := rs\<rparr>))"

definition replayClient :: "replay docClient" where
  "replayClient = \<lparr>sendScan = replay_scan, sendUpdate = replay_update\<rparr>"

section \<open>Example stores\<close>

text \<open>
  Items with and without the attribute \<^verbatim>\<open>AccountId\<close>, one of them with the
  attribute present and null and one with a malformed identifier; scripts for the
  replaying client; and small tables.
\<close>

definition item_a :: DynamoDBItem where
  "item_a = [''id'' \<mapsto> JStr ''a'', ''AgentArn'' \<mapsto> JStr ''arn:aws:genesis:us-west-2:886436930021:agent/a'']"

definition item_b :: DynamoDBItem where
  "item_b = [''id'' \<mapsto> JStr ''b'', ''AccountId'' \<mapsto> JNull]"

definition item_c :: DynamoDBItem where
  "item_c = [''id'' \<mapsto> JStr ''c'', ''AgentArn'' \<mapsto> JStr ''arn:aws:genesis:us-west-2:886436930021:agent/c'']"

definition token_1 :: DynamoDBItem where
  "token_1 = [''id'' \<mapsto> JStr ''0'']"

definition two_pages :: replay where
  "two_pages =
     \<lparr>scan_replies =
        [Inr \<lparr>Items = Some [], LastEvaluatedKey = Some token_1\<rparr>,
         Inr \<lparr>Items = Some [item_a, item_b, item_c], LastEvaluatedKey = None\<rparr>],
      update_replies =
        [Inr \<lparr>Attributes = None\<rparr>, Inl (JsError ''throttled'')]\<rparr>"

definition failing_scan :: replay where
  "failing_scan =
     \<lparr>scan_replies =
        [Inr \<lparr>Items = Some [item_b], LastEvaluatedKey = Some token_1\<rparr>,
         Inl (JsError ''timeout''),
         Inr \<lparr>Items = Some [item_a], LastEvaluatedKey = None\<rparr>],
      update_replies = []\<rparr>"

definition after_first_scan :: "replay world" where
  "after_first_scan =
     \<lparr>store = \<lparr>scan_replies = [Inr \<lparr>Items = Some [item_a, item_b, item_c], LastEvaluatedKey = None\<rparr>],
                update_replies = [Inr \<lparr>Attributes = None\<rparr>, Inl (JsError ''throttled'')]\<rparr>,
       calls = [ScanCall (scan_command ''T'' 50 None)
                  (Inr \<lparr>Items = Some [], LastEvaluatedKey = Some token_1\<rparr>)]\<rparr>"

definition after_second_scan :: "replay world" where
  "after_second_scan =
     \<lparr>store = \<lparr>scan_replies = [],
                update_replies = [Inr \<lparr>Attributes = None\<rparr>, Inl (JsError ''throttled'')]\<rparr>,
       calls = [ScanCall (scan_command ''T'' 50 None)
                  (Inr \<lparr>Items = Some [], LastEvaluatedKey = Some token_1\<rparr>),
                ScanCall (scan_command ''T'' 100 (Some token_1))
                  (Inr \<lparr>Items = Some [item_a, item_b, item_c], LastEvaluatedKey = None\<rparr>)]\<rparr>"

definition two_pages_done :: "replay world" where
  "two_pages_done =
     \<lparr>store = \<lparr>scan_replies = [], update_replies = []\<rparr>,
       calls =
         [ScanCall (scan_command ''T'' 50 None) (Inr \<lparr>Items = Some [], LastEvaluatedKey = Some token_1\<rparr>),
          ScanCall (scan_command ''T'' 100 (Some token_1))
            (Inr \<lparr>Items = Some [item_a, item_b, item_c], LastEvaluatedKey = None\<rparr>),
          UpdateCall (update_command ''T'' [''id'' \<mapsto> JStr ''a''] ''AccountId'' ''886436930021'')
            (Inr \<lparr>Attributes = None\<rparr>),
          UpdateCall (update_command ''T'' [''id'' \<mapsto> JStr ''c''] ''AccountId'' ''886436930021'')
            (Inl (JsError ''throttled''))]\<rparr>"

definition timeout_now :: replay where
  "timeout_now = \<lparr>scan_replies = [Inl (JsError ''timeout'')], update_replies = []\<rparr>"

definition item_bad :: DynamoDBItem where
  "item_bad = [''id'' \<mapsto> JStr ''x'', ''AgentArn'' \<mapsto> JStr ''arn:aws:service:us-west-2:12345:resource/x'']"

definition malformed_first :: replay where
  "malformed_first =
     \<lparr>scan_replies = [Inr \<lparr>Items = Some [item_bad, item_a], LastEvaluatedKey = None\<rparr>],
      update_replies = [Inr \<lparr>Attributes = None\<rparr>, Inr \<lparr>Attributes = None\<rparr>]\<rparr>"




section \<open>Properties of the derivation\<close>

lemma consume_digits_Some_iff:
  "consume_digits n s = Some r \<longleftrightarrow>
     (n \<le> length s \<and> (\<forall>c \<in> set (take n s). is_digit c) \<and> r = drop n s)"
proof (induction n s rule: consume_digits.induct)
  case (1 s)
  show ?case by auto
next
  case (2 n)
  show ?case by simp
next
  case (3 n c cs)
  then show ?case by (cases "is_digit c") auto
qed

lemma test_d12_iff:
  "test_d12 s \<longleftrightarrow> length s = 12 \<and> (\<forall>c \<in> set s. is_digit c)"
  unfolding test_d12_def consume_digits_Some_iff by auto

lemma typeof_string_iff: "typeof v = ''string'' \<longleftrightarrow> (\<exists>s. v = JStr s)"
  by (cases v) simp_all

section \<open>The calls of a run\<close>

lemma scan_calls_append: "scan_calls (xs @ ys) = scan_calls xs @ scan_calls ys"
  by (induction xs rule: scan_calls.induct) simp_all

lemma update_calls_append: "update_calls (xs @ ys) = update_calls xs @ update_calls ys"
  by (induction xs rule: update_calls.induct) simp_all

lemma truthy_key_iff: "truthy_key x = (x \<noteq> None)"
  by (cases x) simp_all

lemma scanTableBatch_cases:
  assumes "scanTableBatch dc t l k w = (r, w')"
  obtains (failed) e where "r = Inl e"
      "calls w' = calls w @ [ScanCall (scan_command t l k) (Inl e)]"
    | (ok) response where
      "r = Inr \<lparr>items = page_items response, lastEvaluatedKey = LastEvaluatedKey response,
               hasMoreItems = (LastEvaluatedKey response \<noteq> None)\<rparr>"
      "calls w' = calls w @ [ScanCall (scan_command t l k) (Inr response)]"
proof -
  obtain r0 s' where s: "sendScan dc (scan_command t l k) (store w) = (r0, s')"
    by (cases "sendScan dc (scan_command t l k) (store w)")
  show thesis
  proof (cases r0)
    case (Inl e)
    with assms s have "r = Inl e" "calls w' = calls w @ [ScanCall (scan_command t l k) (Inl e)]"
      by (auto simp: scanTableBatch_def send_scan_def)
    then show ?thesis by (rule failed)
  next
    case (Inr response)
    with assms s have "r = Inr \<lparr>items = page_items response, lastEvaluatedKey = LastEvaluatedKey response,
               hasMoreItems = (LastEvaluatedKey response \<noteq> None)\<rparr>"
      "calls w' = calls w @ [ScanCall (scan_command t l k) (Inr response)]"
      by (auto simp: scanTableBatch_def send_scan_def page_items_def truthy_key_iff)
    then show ?thesis by (rule ok)
  qed
qed

lemma updateItem_cases:
  assumes "updateItem dc t it a v ka w = (r, w')"
  obtains out where
    "calls w' = calls w @ [UpdateCall (update_command t (build_key it ka) a v) out]"
    "success r = (\<not> isl out)"
proof -
  obtain r0 s' where s: "sendUpdate dc (update_command t (build_key it ka) a v) (store w) = (r0, s')"
    by (cases "sendUpdate dc (update_command t (build_key it ka) a v) (store w)")
  with assms have "calls w' = calls w @ [UpdateCall (update_command t (build_key it ka) a v) r0]"
      "success r = (\<not> isl r0)"
    by (auto simp: updateItem_def send_update_def Let_def split: sum.splits)
  then show thesis by (rule that)
qed

lemma batchLoop_trace:
  assumes "batchLoop dc t its a ka ns nf w = (r, w')"
  shows "\<exists>ups. calls w' = calls w @ ups \<and> scan_calls ups = []
           \<and> (\<forall>u \<in> set (update_calls ups). \<exists>it \<in> set its. Key (fst u) = build_key it ka)
           \<and> (\<forall>c. r = Inr c \<longrightarrow>
                  map (\<lambda>u. Key (fst u)) (update_calls ups) = map (\<lambda>it. build_key it ka) its
                  \<and> successful c = ns + count_ok ups
                  \<and> failed c = nf + count_failed ups)"
  using assms
proof (induction its arbitrary: ns nf w)
  case Nil
  then show ?case by (auto simp: count_ok_def count_failed_def)
next
  case (Cons it rest)
  show ?case
  proof (cases "getAccountIdFromArn (get_prop it ''AgentArn'')")
    case (Inl e)
    with Cons.prems show ?thesis by auto
  next
    case (Inr accountId)
    obtain result w1 where u: "updateItem dc t it a accountId ka w = (result, w1)"
      by (cases "updateItem dc t it a accountId ka w")
    from u obtain out where
      c1: "calls w1 = calls w @ [UpdateCall (update_command t (build_key it ka) a accountId) out]"
      and sc: "success result = (\<not> isl out)"
      by (rule updateItem_cases)
    have k: "Key (update_command t (build_key it ka) a accountId) = build_key it ka"
      by (simp add: update_command_def)
    from Cons.prems Inr u have
      "batchLoop dc t rest a ka (if success result then ns + 1 else ns)
          (if success result then nf else nf + 1) w1 = (r, w')"
      by (simp split: if_splits)
    from Cons.IH[OF this] obtain ups where
        "calls w' = calls w1 @ ups" "scan_calls ups = []"
        "\<forall>u \<in> set (update_calls ups). \<exists>it \<in> set rest. Key (fst u) = build_key it ka"
        "\<forall>c. r = Inr c \<longrightarrow>
                  map (\<lambda>u. Key (fst u)) (update_calls ups) = map (\<lambda>it. build_key it ka) rest
                  \<and> successful c = (if success result then ns + 1 else ns) + count_ok ups
                  \<and> failed c = (if success result then nf else nf + 1) + count_failed ups"
        by blast
    with c1 sc k show ?thesis
      by (intro exI[of _ "UpdateCall (update_command t (build_key it ka) a accountId) out # ups"])
         (auto simp: count_ok_def count_failed_def)
  qed
qed

lemma count_ok_failed: "count_ok evs + count_failed evs = length (update_calls evs)"
  unfolding count_ok_def count_failed_def
  by (induction "update_calls evs" arbitrary: evs) (simp, metis sum_length_filter_compl add.commute)

section \<open>One iteration, and whole runs\<close>

lemma batchLoop_Nil: "batchLoop dc t [] n ka 0 0 w = (Inr \<lparr>successful = 0, failed = 0\<rparr>, w)"
  by simp

lemma processLoop_Suc_eq:
  "processLoop (Suc fuel) dc t m n ka stats lek isFirst w =
     (case scanTableBatch dc t (if isFirst then 50 else 100) lek w of
        (Inl e, w1) \<Rightarrow> (Some (Inl e), w1)
      | (Inr sr, w1) \<Rightarrow>
          (case batchLoop dc t (filterItemsFromTable (items sr) m) n ka 0 0 w1 of
             (Inl e, w2) \<Rightarrow> (Some (Inl e), w2)
           | (Inr c, w2) \<Rightarrow>
               (if lastEvaluatedKey sr = None
                then (Some (Inr \<lparr>totalScanned = totalScanned stats + length (items sr),
                        itemsWithoutAttribute = itemsWithoutAttribute stats
                           + length (filterItemsFromTable (items sr) m),
                        successfulUpdates = successfulUpdates stats + successful c,
                        failedUpdates = failedUpdates stats + failed c\<rparr>), w2)
                else processLoop fuel dc t m n ka
                       \<lparr>totalScanned = totalScanned stats + length (items sr),
                        itemsWithoutAttribute = itemsWithoutAttribute stats
                           + length (filterItemsFromTable (items sr) m),
                        successfulUpdates = successfulUpdates stats + successful c,
                        failedUpdates = failedUpdates stats + failed c\<rparr>
                       (lastEvaluatedKey sr) False w2)))"
proof (cases "scanTableBatch dc t (if isFirst then 50 else 100) lek w")
  case (Pair r w1)
  show ?thesis
  proof (cases r)
    case (Inl e)
    with Pair show ?thesis by (simp add: Let_def)
  next
    case (Inr sr)
    show ?thesis
    proof (cases "filterItemsFromTable (items sr) m = []")
      case True
      with Pair Inr show ?thesis
        by (cases stats) (simp add: Let_def truthy_key_iff)
    next
      case False
      with Pair Inr show ?thesis
        by (cases stats) (simp add: Let_def truthy_key_iff batchUpdateItems_def split: prod.splits sum.splits)
    qed
  qed
qed


lemma processLoop_step:
  assumes "processLoop (Suc fuel) dc t m n ka stats lek isFirst w = (res, w')"
  obtains
    (scan_failed) e where
      "res = Some (Inl e)"
      "calls w' = calls w @ [ScanCall (scan_command t (if isFirst then 50 else 100) lek) (Inl e)]"
  | (batch_threw) response ups e where
      "res = Some (Inl e)"
      "calls w' = calls w @
         ScanCall (scan_command t (if isFirst then 50 else 100) lek) (Inr response) # ups"
      "scan_calls ups = []"
      "\<forall>u \<in> set (update_calls ups).
         \<exists>it \<in> set (filterItemsFromTable (page_items response) m). Key (fst u) = build_key it ka"
  | (page_done) response ups stats3 w2 where
      "calls w2 = calls w @
         ScanCall (scan_command t (if isFirst then 50 else 100) lek) (Inr response) # ups"
      "scan_calls ups = []"
      "map (\<lambda>u. Key (fst u)) (update_calls ups) =
         map (\<lambda>it. build_key it ka) (filterItemsFromTable (page_items response) m)"
      "totalScanned stats3 = totalScanned stats + length (page_items response)"
      "itemsWithoutAttribute stats3 =
         itemsWithoutAttribute stats + length (filterItemsFromTable (page_items response) m)"
      "successfulUpdates stats3 = successfulUpdates stats + count_ok ups"
      "failedUpdates stats3 = failedUpdates stats + count_failed ups"
      "LastEvaluatedKey response = None \<Longrightarrow> res = Some (Inr stats3) \<and> w' = w2"
      "LastEvaluatedKey response \<noteq> None \<Longrightarrow>
         processLoop fuel dc t m n ka stats3 (LastEvaluatedKey response) False w2 = (res, w')"
proof -
  let ?l = "if isFirst then 50 else 100 :: nat"
  note run = assms[unfolded processLoop_Suc_eq]
  obtain r w1 where sb: "scanTableBatch dc t ?l lek w = (r, w1)"
    by (cases "scanTableBatch dc t ?l lek w")
  from sb show thesis
  proof (cases rule: scanTableBatch_cases)
    case (failed e)
    with run sb have "res = Some (Inl e)" "w' = w1" by auto
    with failed show ?thesis by (intro scan_failed) auto
  next
    case (ok response)
    let ?sel = "filterItemsFromTable (page_items response) m"
    obtain br w2 where b: "batchLoop dc t ?sel n ka 0 0 w1 = (br, w2)"
      by (cases "batchLoop dc t ?sel n ka 0 0 w1")
    from batchLoop_trace[OF b] obtain ups where
      u1: "calls w2 = calls w1 @ ups" and u2: "scan_calls ups = []"
      and u3: "\<forall>u \<in> set (update_calls ups). \<exists>it \<in> set ?sel. Key (fst u) = build_key it ka"
      and u4: "\<forall>c. br = Inr c \<longrightarrow>
                  map (\<lambda>u. Key (fst u)) (update_calls ups) = map (\<lambda>it. build_key it ka) ?sel
                  \<and> successful c = 0 + count_ok ups
                  \<and> failed c = 0 + count_failed ups"
      by blast
    show ?thesis
    proof (cases br)
      case (Inl e)
      with run sb ok b have "res = Some (Inl e)" "w' = w2"
        by auto
      with ok u1 u2 u3 show ?thesis by (intro batch_threw[of e response ups]) auto
    next
      case (Inr c)
      let ?stats3 = "\<lparr>totalScanned = totalScanned stats + length (page_items response),
                        itemsWithoutAttribute = itemsWithoutAttribute stats + length ?sel,
                        successfulUpdates = successfulUpdates stats + successful c,
                        failedUpdates = failedUpdates stats + failed c\<rparr>"
      from run sb ok b Inr have
        fin: "LastEvaluatedKey response = None \<Longrightarrow> res = Some (Inr ?stats3) \<and> w' = w2"
        and cont: "LastEvaluatedKey response \<noteq> None \<Longrightarrow>
         processLoop fuel dc t m n ka ?stats3 (LastEvaluatedKey response) False w2 = (res, w')"
        by auto
      from u4 Inr have k: "map (\<lambda>u. Key (fst u)) (update_calls ups) = map (\<lambda>it. build_key it ka) ?sel"
        and s: "successful c = count_ok ups" and f: "failed c = count_failed ups" by auto
      show ?thesis
        by (rule page_done[of w2 response ups ?stats3])
           (use ok u1 u2 k s f fin cont in auto)
    qed
  qed
qed


lemma count_ok_simps:
  "count_ok [] = 0"
  "count_ok (ScanCall inp r # es) = count_ok es"
  "count_ok (xs @ ys) = count_ok xs + count_ok ys"
  by (simp_all add: count_ok_def update_calls_append)

lemma count_failed_simps:
  "count_failed [] = 0"
  "count_failed (ScanCall inp r # es) = count_failed es"
  "count_failed (xs @ ys) = count_failed xs + count_failed ys"
  by (simp_all add: count_failed_def update_calls_append)

lemma processLoop_shape:
  assumes "processLoop fuel dc t m n ka stats lek isFirst w = (res, w')"
  shows "\<exists>evs. calls w' = calls w @ evs \<and> chained t isFirst lek (scan_calls evs)"
  using assms
proof (induction fuel arbitrary: stats lek isFirst w)
  case 0
  then show ?case by simp
next
  case (Suc fuel)
  from Suc.prems show ?case
  proof (cases rule: processLoop_step)
    case (scan_failed e)
    then show ?thesis by simp
  next
    case (batch_threw response ups e)
    then show ?thesis by (simp add: scan_calls_append)
  next
    case (page_done response ups stats3 w2)
    show ?thesis
    proof (cases "LastEvaluatedKey response = None")
      case True
      with page_done show ?thesis by (simp add: scan_calls_append)
    next
      case False
      from Suc.IH[OF page_done(9)[OF False]] obtain evs where
        "calls w' = calls w2 @ evs" "chained t False (LastEvaluatedKey response) (scan_calls evs)"
        by blast
      with page_done(1,2) False show ?thesis
        by (auto simp: scan_calls_append)
    qed
  qed
qed

lemma processLoop_completed:
  assumes "processLoop fuel dc t m n ka stats lek isFirst w = (Some (Inr st), w')"
  shows "\<exists>evs. calls w' = calls w @ evs
           \<and> scan_calls evs \<noteq> []
           \<and> (\<exists>response. snd (last (scan_calls evs)) = Inr response
                           \<and> LastEvaluatedKey response = None)
           \<and> totalScanned st = totalScanned stats
                + sum_list (map (\<lambda>c. length (returned_items (snd c))) (scan_calls evs))
           \<and> itemsWithoutAttribute st = itemsWithoutAttribute stats + length (update_calls evs)
           \<and> successfulUpdates st = successfulUpdates stats + count_ok evs
           \<and> failedUpdates st = failedUpdates stats + count_failed evs
           \<and> map (\<lambda>u. Key (fst u)) (update_calls evs) =
               concat (map (\<lambda>c. map (\<lambda>it. build_key it ka)
                                   (filterItemsFromTable (returned_items (snd c)) m))
                         (scan_calls evs))"
  using assms
proof (induction fuel arbitrary: stats lek isFirst w)
  case 0
  then show ?case by simp
next
  case (Suc fuel)
  from Suc.prems show ?case
  proof (cases rule: processLoop_step)
    case (scan_failed e)
    then show ?thesis by simp
  next
    case (batch_threw response ups e)
    then show ?thesis by simp
  next
    case (page_done response ups stats3 w2)
    let ?ev = "ScanCall (scan_command t (if isFirst then 50 else 100) lek) (Inr response)"
    have len: "length (update_calls ups) = length (filterItemsFromTable (page_items response) m)"
      using arg_cong[OF page_done(3), of length] by simp
    show ?thesis
    proof (cases "LastEvaluatedKey response = None")
      case True
      with page_done(8) have "st = stats3" "w' = w2" by auto
      with page_done True len show ?thesis
        by (intro exI[of _ "?ev # ups"])
           (simp add: scan_calls_append update_calls_append count_ok_simps count_failed_simps)
    next
      case False
      from Suc.IH[OF page_done(9)[OF False]] obtain evs where e:
        "calls w' = calls w2 @ evs" "scan_calls evs \<noteq> []"
        "\<exists>response. snd (last (scan_calls evs)) = Inr response \<and> LastEvaluatedKey response = None"
        "totalScanned st = totalScanned stats3
                + sum_list (map (\<lambda>c. length (returned_items (snd c))) (scan_calls evs))"
        "itemsWithoutAttribute st = itemsWithoutAttribute stats3 + length (update_calls evs)"
        "successfulUpdates st = successfulUpdates stats3 + count_ok evs"
        "failedUpdates st = failedUpdates stats3 + count_failed evs"
        "map (\<lambda>u. Key (fst u)) (update_calls evs) =
               concat (map (\<lambda>c. map (\<lambda>it. build_key it ka)
                                   (filterItemsFromTable (returned_items (snd c)) m))
                         (scan_calls evs))"
        by blast
      with page_done(1-7) len show ?thesis
        by (intro exI[of _ "?ev # ups @ evs"])
           (simp add: scan_calls_append update_calls_append count_ok_simps count_failed_simps)
    qed
  qed
qed

lemma processLoop_scan_failure:
  assumes "processLoop fuel dc t m n ka stats lek isFirst w = (res, w')"
  shows "\<exists>evs. calls w' = calls w @ evs
           \<and> (\<forall>inp e. (inp, Inl e) \<in> set (scan_calls evs) \<longrightarrow>
                  res = Some (Inl e) \<and> evs \<noteq> [] \<and> last evs = ScanCall inp (Inl e))"
  using assms
proof (induction fuel arbitrary: stats lek isFirst w)
  case 0
  then show ?case by simp
next
  case (Suc fuel)
  from Suc.prems show ?case
  proof (cases rule: processLoop_step)
    case (scan_failed e)
    then show ?thesis by simp
  next
    case (batch_threw response ups e)
    then show ?thesis by (simp add: scan_calls_append)
  next
    case (page_done response ups stats3 w2)
    let ?ev = "ScanCall (scan_command t (if isFirst then 50 else 100) lek) (Inr response)"
    show ?thesis
    proof (cases "LastEvaluatedKey response = None")
      case True
      with page_done show ?thesis by (simp add: scan_calls_append)
    next
      case False
      from Suc.IH[OF page_done(9)[OF False]] obtain evs where e:
        "calls w' = calls w2 @ evs"
        "\<forall>inp e. (inp, Inl e) \<in> set (scan_calls evs) \<longrightarrow>
                  res = Some (Inl e) \<and> evs \<noteq> [] \<and> last evs = ScanCall inp (Inl e)"
        by blast
      with page_done(1,2) show ?thesis
        by (intro exI[of _ "?ev # ups @ evs"]) (auto simp: scan_calls_append)
    qed
  qed
qed

lemma processLoop_keys:
  assumes "processLoop fuel dc t m n ka stats lek isFirst w = (res, w')"
  shows "\<exists>evs. calls w' = calls w @ evs
           \<and> (\<forall>u \<in> set (update_calls evs). \<exists>c \<in> set (scan_calls evs).
                  \<exists>it \<in> set (filterItemsFromTable (returned_items (snd c)) m).
                     Key (fst u) = build_key it ka)"
  using assms
proof (induction fuel arbitrary: stats lek isFirst w)
  case 0
  then show ?case by simp
next
  case (Suc fuel)
  from Suc.prems show ?case
  proof (cases rule: processLoop_step)
    case (scan_failed e)
    then show ?thesis by simp
  next
    case (batch_threw response ups e)
    then show ?thesis by (auto simp: scan_calls_append update_calls_append)
  next
    case (page_done response ups stats3 w2)
    let ?ev = "ScanCall (scan_command t (if isFirst then 50 else 100) lek) (Inr response)"
    have k: "\<forall>u \<in> set (update_calls ups).
         \<exists>it \<in> set (filterItemsFromTable (page_items response) m). Key (fst u) = build_key it ka"
    proof
      fix u assume "u \<in> set (update_calls ups)"
      then have "Key (fst u) \<in> set (map (\<lambda>u. Key (fst u)) (update_calls ups))" by simp
      then show "\<exists>it \<in> set (filterItemsFromTable (page_items response) m). Key (fst u) = build_key it ka"
        unfolding page_done(3) by auto
    qed
    show ?thesis
    proof (cases "LastEvaluatedKey response = None")
      case True
      with page_done k show ?thesis by (auto simp: scan_calls_append update_calls_append)
    next
      case False
      from Suc.IH[OF page_done(9)[OF False]] obtain evs where e:
        "calls w' = calls w2 @ evs"
        "\<forall>u \<in> set (update_calls evs). \<exists>c \<in> set (scan_calls evs).
                  \<exists>it \<in> set (filterItemsFromTable (returned_items (snd c)) m).
                     Key (fst u) = build_key it ka"
        by blast
      with page_done(1,2) k show ?thesis
        by (intro exI[of _ "?ev # ups @ evs"]) (auto simp: scan_calls_append update_calls_append)
    qed
  qed
qed

lemma chained_nth:
  assumes "chained t isFirst lek sc"
  shows "(sc \<noteq> [] \<longrightarrow> fst (sc ! 0) = scan_command t (if isFirst then 50 else 100) lek)
       \<and> (\<forall>i. Suc i < length sc \<longrightarrow>
             (\<exists>response. snd (sc ! i) = Inr response \<and> LastEvaluatedKey response \<noteq> None
                 \<and> fst (sc ! Suc i) = scan_command t 100 (LastEvaluatedKey response)))"
  using assms
proof (induction sc arbitrary: isFirst lek)
  case Nil
  then show ?case by simp
next
  case (Cons c sc)
  obtain inp out where c: "c = (inp, out)" by (cases c)
  show ?case
  proof (intro conjI allI impI)
    show "fst ((c # sc) ! 0) = scan_command t (if isFirst then 50 else 100) lek"
      using Cons.prems c by simp
  next
    fix i assume i: "Suc i < length (c # sc)"
    then have ne: "sc \<noteq> []" by auto
    with Cons.prems c obtain response where
      r: "out = Inr response" "LastEvaluatedKey response \<noteq> None"
         "chained t False (LastEvaluatedKey response) sc"
      by (cases out) (auto split: if_splits)
    note ih = Cons.IH[OF r(3)]
    show "\<exists>response. snd ((c # sc) ! i) = Inr response \<and> LastEvaluatedKey response \<noteq> None
                 \<and> fst ((c # sc) ! Suc i) = scan_command t 100 (LastEvaluatedKey response)"
    proof (cases i)
      case 0
      with ih ne r c show ?thesis by simp
    next
      case (Suc j)
      with i have "Suc j < length sc" by simp
      with ih Suc show ?thesis by simp
    qed
  qed
qed

lemma processLoop_scans_nonempty:
  assumes "processLoop (Suc fuel) dc t m n ka stats lek isFirst w = (res, w')"
    and "calls w' = calls w @ evs"
  shows "scan_calls evs \<noteq> []"
  using assms(1)
proof (cases rule: processLoop_step)
  case (scan_failed e)
  with assms(2) show ?thesis by auto
next
  case (batch_threw response ups e)
  with assms(2) show ?thesis by auto 
next
  case (page_done response ups stats3 w2)
  show ?thesis
  proof (cases "LastEvaluatedKey response = None")
    case True
    with page_done assms(2) show ?thesis by auto
  next
    case False
    from processLoop_shape[OF page_done(9)[OF False]] obtain evs' where "calls w' = calls w2 @ evs'"
      by blast
    with page_done(1) assms(2) show ?thesis by auto
  qed
qed

lemma scanTableBatch_hasMore:
  assumes "scanTableBatch dc t l k w = (Inr sr, w1)"
  shows "\<exists>response. calls w1 = calls w @ [ScanCall (scan_command t l k) (Inr response)]
           \<and> items sr = page_items response
           \<and> lastEvaluatedKey sr = LastEvaluatedKey response
           \<and> hasMoreItems sr = (LastEvaluatedKey response \<noteq> None)"
  using assms by (cases rule: scanTableBatch_cases) auto

lemma empty_page_continues:
  assumes "scanTableBatch dc t (if isFirst then 50 else 100) lek w = (Inr sr, w1)"
    and "items sr = []" and "hasMoreItems sr"
  shows "processLoop (Suc fuel) dc t m n ka stats lek isFirst w =
           processLoop fuel dc t m n ka stats (lastEvaluatedKey sr) False w1"
proof -
  from scanTableBatch_hasMore[OF assms(1)] assms(3) have "lastEvaluatedKey sr \<noteq> None" by auto
  with assms(1,2) show ?thesis
    unfolding processLoop_Suc_eq by (cases stats) (auto simp: filterItemsFromTable_def)
qed

lemma page_ends_or_continues:
  assumes "scanTableBatch dc t (if isFirst then 50 else 100) lek w = (Inr sr, w1)"
    and "batchUpdateItems dc t (filterItemsFromTable (items sr) m) n ka w1 = (Inr c, w2)"
  shows "processLoop (Suc fuel) dc t m n ka stats lek isFirst w =
           (if hasMoreItems sr
            then processLoop fuel dc t m n ka
                   \<lparr>totalScanned = totalScanned stats + length (items sr),
                    itemsWithoutAttribute = itemsWithoutAttribute stats
                       + length (filterItemsFromTable (items sr) m),
                    successfulUpdates = successfulUpdates stats + successful c,
                    failedUpdates = failedUpdates stats + failed c\<rparr>
                   (lastEvaluatedKey sr) False w2
            else (Some (Inr \<lparr>totalScanned = totalScanned stats + length (items sr),
                    itemsWithoutAttribute = itemsWithoutAttribute stats
                       + length (filterItemsFromTable (items sr) m),
                    successfulUpdates = successfulUpdates stats + successful c,
                    failedUpdates = failedUpdates stats + failed c\<rparr>), w2))"
proof -
  from scanTableBatch_hasMore[OF assms(1)]
  have "hasMoreItems sr = (lastEvaluatedKey sr \<noteq> None)" by auto
  with assms show ?thesis
    unfolding processLoop_Suc_eq by (simp add: batchUpdateItems_def)
qed

lemma processLoop_out_of_fuel:
  assumes "processLoop fuel dc t m n ka stats lek isFirst w = (None, w')"
    and "0 < fuel"
  shows "\<exists>evs. calls w' = calls w @ evs \<and> scan_calls evs \<noteq> []
           \<and> (\<exists>response. snd (last (scan_calls evs)) = Inr response
                  \<and> LastEvaluatedKey response \<noteq> None)"
  using assms
proof (induction fuel arbitrary: stats lek isFirst w)
  case 0
  then show ?case by simp
next
  case (Suc fuel)
  from Suc.prems(1) show ?case
  proof (cases rule: processLoop_step)
    case (scan_failed e)
    then show ?thesis by simp
  next
    case (batch_threw response ups e)
    then show ?thesis by simp
  next
    case (page_done response ups stats3 w2)
    let ?ev = "ScanCall (scan_command t (if isFirst then 50 else 100) lek) (Inr response)"
    show ?thesis
    proof (cases "LastEvaluatedKey response = None")
      case True
      with page_done(8) show ?thesis by simp
    next
      case False
      note cont = page_done(9)[OF False]
      show ?thesis
      proof (cases fuel)
        case 0
        with cont have "w' = w2" by simp
        with page_done(1,2) False show ?thesis
          by (intro exI[of _ "?ev # ups"]) (simp add: scan_calls_append)
      next
        case (Suc f)
        then have "0 < fuel" by simp
        from Suc.IH[OF cont this] obtain evs where
          "calls w' = calls w2 @ evs" "scan_calls evs \<noteq> []"
          "\<exists>response. snd (last (scan_calls evs)) = Inr response
                  \<and> LastEvaluatedKey response \<noteq> None"
          by blast
        with page_done(1,2) show ?thesis
          by (intro exI[of _ "?ev # ups @ evs"]) (simp add: scan_calls_append)
      qed
    qed
  qed
qed

lemma build_key_id:
  "build_key it [''id''] =
     (if get_prop it ''id'' \<noteq> JUndefined then [''id'' \<mapsto> get_prop it ''id''] else Map.empty)"
  by (simp add: build_key_def set_prop_def)

section \<open>Runs on the table store\<close>





















section \<open>Example runs\<close>

lemma derive_a: "getAccountIdFromArn (JStr ''arn:aws:genesis:us-west-2:886436930021:agent/a'') = Inr ''886436930021''"
  by (simp add: getAccountIdFromArn_def Let_def test_d12_iff is_digit_def)

lemma derive_c: "getAccountIdFromArn (JStr ''arn:aws:genesis:us-west-2:886436930021:agent/c'') = Inr ''886436930021''"
  by (simp add: getAccountIdFromArn_def Let_def test_d12_iff is_digit_def)

lemma two_pages_run:
  "processTable (Suc (Suc 0)) replayClient ''T'' ''AccountId'' ''AccountId'' None (init_world two_pages) =
     (Some (Inr \<lparr>totalScanned = 3, itemsWithoutAttribute = 2, successfulUpdates = 1, failedUpdates = 1\<rparr>),
      \<lparr>store = \<lparr>scan_replies = [], update_replies = []\<rparr>,
       calls =
         [ScanCall (scan_command ''T'' 50 None) (Inr \<lparr>Items = Some [], LastEvaluatedKey = Some token_1\<rparr>),
          ScanCall (scan_command ''T'' 100 (Some token_1))
            (Inr \<lparr>Items = Some [item_a, item_b, item_c], LastEvaluatedKey = None\<rparr>),
          UpdateCall (update_command ''T'' [''id'' \<mapsto> JStr ''a''] ''AccountId'' ''886436930021'')
            (Inr \<lparr>Attributes = None\<rparr>),
          UpdateCall (update_command ''T'' [''id'' \<mapsto> JStr ''c''] ''AccountId'' ''886436930021'')
            (Inl (JsError ''throttled''))]\<rparr>)"
  by (simp add: processTable_def init_world_def two_pages_def scanTableBatch_def send_scan_def
      replayClient_def replay_scan_def replay_update_def filterItemsFromTable_def js_in_def inherited_def object_prototype_names_def
      batchUpdateItems_def updateItem_def send_update_def build_key_def set_prop_def get_prop_def
      item_a_def item_b_def item_c_def derive_a derive_c Let_def)


lemma failing_scan_run:
  "processTable (Suc (Suc (Suc 0))) replayClient ''T'' ''AccountId'' ''AccountId'' (Some [''id''])
       (init_world failing_scan) =
     (Some (Inl (JsError ''timeout'')),
      \<lparr>store = \<lparr>scan_replies = [Inr \<lparr>Items = Some [item_a], LastEvaluatedKey = None\<rparr>],
                update_replies = []\<rparr>,
       calls =
         [ScanCall (scan_command ''T'' 50 None)
            (Inr \<lparr>Items = Some [item_b], LastEvaluatedKey = Some token_1\<rparr>),
          ScanCall (scan_command ''T'' 100 (Some token_1)) (Inl (JsError ''timeout''))]\<rparr>)"
  by (simp add: processTable_def init_world_def failing_scan_def scanTableBatch_def send_scan_def
      replayClient_def replay_scan_def filterItemsFromTable_def js_in_def inherited_def object_prototype_names_def
      item_b_def Let_def)

lemma two_pages_first_scan:
  "scanTableBatch replayClient ''T'' 50 None (init_world two_pages) =
     (Inr \<lparr>items = [], lastEvaluatedKey = Some token_1, hasMoreItems = True\<rparr>, after_first_scan)"
  by (simp add: scanTableBatch_def send_scan_def replayClient_def replay_scan_def
      init_world_def two_pages_def after_first_scan_def)

lemma derive_bad:
  "getAccountIdFromArn (JStr ''arn:aws:service:us-west-2:12345:resource/x'') =
     Inl (JsError ''Invalid account ID format: 12345. Account ID must be 12 digits'')"
  by (simp add: getAccountIdFromArn_def Let_def test_d12_iff is_digit_def)





lemma two_pages_second_scan:
  "scanTableBatch replayClient ''T'' 100 (Some token_1) after_first_scan =
     (Inr \<lparr>items = [item_a, item_b, item_c], lastEvaluatedKey = None, hasMoreItems = False\<rparr>,
      after_second_scan)"
  by (simp add: scanTableBatch_def send_scan_def replayClient_def replay_scan_def
      after_first_scan_def after_second_scan_def)

lemma two_pages_selected:
  "filterItemsFromTable [item_a, item_b, item_c] ''AccountId'' = [item_a, item_c]"
  by (simp add: filterItemsFromTable_def js_in_def inherited_def object_prototype_names_def
      item_a_def item_b_def item_c_def)

lemma two_pages_batch:
  "batchUpdateItems replayClient ''T'' [item_a, item_c] ''AccountId'' [''id''] after_second_scan =
     (Inr \<lparr>successful = 1, failed = 1\<rparr>, two_pages_done)"
  by (simp add: batchUpdateItems_def updateItem_def send_update_def replayClient_def
      replay_update_def build_key_def set_prop_def get_prop_def inherited_def
      object_prototype_names_def item_a_def item_c_def derive_a derive_c
      after_second_scan_def two_pages_done_def Let_def)

section \<open>A derivation failure is not caught\<close>

text \<open>
  C1 says that any failure while a selected item is processed, a derivation failure as
  well as a failed update call, is turned into a failed outcome and counted, and that the
  run goes on with the remaining items. The code does this for the update call only. On a
  page whose first selected item has an identifier with a 5-digit owner segment and whose
  second selected item is well formed, with a store that would accept both updates, the
  run ends with the error of the derivation: no update call is made, also not for the
  second item, and no statistics are returned.
\<close>

theorem derivation_failure_leaves_the_run:
  "processTable (Suc 0) replayClient ''T'' ''AccountId'' ''AccountId'' (Some [''id''])
       (init_world malformed_first) =
     (Some (Inl (JsError ''Invalid account ID format: 12345. Account ID must be 12 digits'')),
      \<lparr>store = \<lparr>scan_replies = [],
                update_replies = [Inr \<lparr>Attributes = None\<rparr>, Inr \<lparr>Attributes = None\<rparr>]\<rparr>,
       calls = [ScanCall (scan_command ''T'' 50 None)
                  (Inr \<lparr>Items = Some [item_bad, item_a], LastEvaluatedKey = None\<rparr>)]\<rparr>)"
  by (simp add: processTable_def init_world_def malformed_first_def scanTableBatch_def send_scan_def
      replayClient_def replay_scan_def filterItemsFromTable_def js_in_def inherited_def object_prototype_names_def
      batchUpdateItems_def get_prop_def item_a_def item_bad_def derive_bad Let_def)

section \<open>The derivation fails exactly on malformed identifiers\<close>

text \<open>
  C2. \<^verbatim>\<open>getAccountIdFromArn\<close> throws if and only if its input is not a string or
  is the empty string, or splitting it on \<^verbatim>\<open>:\<close> gives fewer than 6 segments, or
  segment 4 is empty, or segment 4 is not exactly 12 ASCII decimal digits. Otherwise it
  returns segment 4 unchanged.
\<close>

theorem getAccountIdFromArn_fails_iff:
  "(let parts = split_on (CHR '':'') (the_str v); seg = parts ! 4;
        malformed = ((\<forall>s. v \<noteq> JStr s) \<or> v = JStr []
                     \<or> length parts < 6
                     \<or> seg = []
                     \<or> \<not> (length seg = 12 \<and> (\<forall>c \<in> set seg. c \<in> set ''0123456789'')))
    in ((\<exists>e. getAccountIdFromArn v = Inl e) \<longleftrightarrow> malformed)
       \<and> (\<not> malformed \<longrightarrow> getAccountIdFromArn v = Inr seg))"
proof (cases v)
  case (JStr s)
  then show ?thesis
    by (auto simp: getAccountIdFromArn_def Let_def test_d12_iff is_digit_def)
qed (simp_all add: getAccountIdFromArn_def Let_def)

theorem getAccountIdFromArn_fails_iff_witness:
  "getAccountIdFromArn (JStr ''arn:aws:service:us-west-2:886436930021:resource/x'') = Inr ''886436930021''
   \<and> (\<exists>e. getAccountIdFromArn (JStr ''arn:aws:service:us-west-2:12345:resource/x'') = Inl e)
   \<and> (\<exists>e. getAccountIdFromArn JUndefined = Inl e)"
  using getAccountIdFromArn_fails_iff [of "JStr ''arn:aws:service:us-west-2:886436930021:resource/x''"]
        getAccountIdFromArn_fails_iff [of "JStr ''arn:aws:service:us-west-2:12345:resource/x''"]
        getAccountIdFromArn_fails_iff [of JUndefined]
  by (simp add: Let_def)

section \<open>The filter and inherited names\<close>

text \<open>
  What the filter selects: the items of the input that have the attribute name neither
  as a key of their own nor as an inherited name, in the order of the input and as often
  as they occur there. An item that has the attribute with the value \<^verbatim>\<open>null\<close>,
  the empty string or zero is not selected.
\<close>

lemma filterItemsFromTable_selects:
  "(r \<in> set (filterItemsFromTable its a) \<longleftrightarrow>
      r \<in> set its \<and> a \<notin> dom r \<and> a \<notin> set object_prototype_names)
   \<and> subseq (filterItemsFromTable its a) its
   \<and> count_list (filterItemsFromTable its a) r =
       (if a \<in> dom r \<or> a \<in> set object_prototype_names then 0 else count_list its r)
   \<and> (r a \<in> {Some JNull, Some (JStr []), Some (JNum 0)} \<longrightarrow>
        r \<notin> set (filterItemsFromTable its a))"
proof -
  have "count_list (filter P xs) x = (if P x then count_list xs x else 0)" for P xs and x :: DynamoDBItem
    by (induction xs) auto
  then show ?thesis
    by (auto simp: filterItemsFromTable_def js_in_def inherited_def dom_def)
qed

text \<open>
  C3 says that, for every attribute name, the filter selects an item if and only if the
  name is not a key of the item's mapping. The code tests \<^verbatim>\<open>attributeName in item\<close>,
  which is also true for the names every object inherits. For the attribute name
  \<^verbatim>\<open>toString\<close> the item \<^verbatim>\<open>{id: 'b'}\<close>, which has no such key, is not
  selected; for the attribute name \<^verbatim>\<open>Attr\<close> it is.
\<close>

theorem filter_skips_item_without_the_key:
  "[''id'' \<mapsto> JStr ''b''] ''toString'' = None
   \<and> filterItemsFromTable [[''id'' \<mapsto> JStr ''b'']] ''toString'' = []
   \<and> filterItemsFromTable [[''id'' \<mapsto> JStr ''b'']] ''Attr'' = [[''id'' \<mapsto> JStr ''b'']]"
  by (simp add: filterItemsFromTable_def js_in_def inherited_def object_prototype_names_def)

section \<open>Selected items and update outcomes\<close>

text \<open>
  C4. In a run that returns statistics, \<^verbatim>\<open>itemsWithoutAttribute\<close> is the sum of
  \<^verbatim>\<open>successfulUpdates\<close> and \<^verbatim>\<open>failedUpdates\<close>: the update calls of the run are,
  in order, one per selected item of each page, \<^verbatim>\<open>successfulUpdates\<close> counts the
  calls that returned and \<^verbatim>\<open>failedUpdates\<close> those that threw.
\<close>

theorem processTable_counts_balance:
  assumes "processTable fuel dc t m n ka (init_world s) = (Some (Inr st), w')"
  shows "itemsWithoutAttribute st = successfulUpdates st + failedUpdates st
       \<and> length (update_calls (calls w')) = itemsWithoutAttribute st
       \<and> successfulUpdates st = count_ok (calls w')
       \<and> failedUpdates st = count_failed (calls w')
       \<and> map (\<lambda>u. Key (fst u)) (update_calls (calls w')) =
           concat (map (\<lambda>c. map (\<lambda>it. build_key it (case ka of None \<Rightarrow> [''id''] | Some k \<Rightarrow> k))
                               (filterItemsFromTable (returned_items (snd c)) m))
                     (scan_calls (calls w')))"
proof -
  from assms have "processLoop fuel dc t m n (case ka of None \<Rightarrow> [''id''] | Some k \<Rightarrow> k)
      \<lparr>totalScanned = 0, itemsWithoutAttribute = 0, successfulUpdates = 0, failedUpdates = 0\<rparr>
      None True (init_world s) = (Some (Inr st), w')"
    by (simp add: processTable_def)
  from processLoop_completed[OF this] count_ok_failed[of "calls w'"] show ?thesis
    by (auto simp: init_world_def)
qed

theorem processTable_counts_balance_witness:
  "let run = processTable (Suc (Suc 0)) replayClient ''T'' ''AccountId'' ''AccountId'' None
               (init_world two_pages)
   in fst run = Some (Inr \<lparr>totalScanned = 3, itemsWithoutAttribute = 2,
                           successfulUpdates = 1, failedUpdates = 1\<rparr>)
      \<and> length (update_calls (calls (snd run))) = 2
      \<and> count_ok (calls (snd run)) = 1
      \<and> count_failed (calls (snd run)) = 1"
  using processTable_counts_balance [OF two_pages_run]
  by (simp add: two_pages_run Let_def count_ok_def count_failed_def)

section \<open>The scan requests of a run\<close>

text \<open>
  C5. In every run, finished or not, the first scan call passes no continuation token and
  asks for 50 items; every later scan call asks for 100 items and passes the token that
  the scan call just before it returned.
\<close>

theorem processTable_scan_requests:
  assumes "processTable fuel dc t m n ka (init_world s) = (res, w')"
  shows "let sc = scan_calls (calls w') in
           (0 < fuel \<longrightarrow> sc \<noteq> [])
         \<and> (sc \<noteq> [] \<longrightarrow>
              fst (sc ! 0) = \<lparr>Scan_TableName = t, Limit = 50, ExclusiveStartKey = None\<rparr>)
         \<and> (\<forall>i. Suc i < length sc \<longrightarrow>
              (\<exists>response. snd (sc ! i) = Inr response
                 \<and> LastEvaluatedKey response \<noteq> None
                 \<and> fst (sc ! Suc i) =
                     \<lparr>Scan_TableName = t, Limit = 100,
                      ExclusiveStartKey = LastEvaluatedKey response\<rparr>))"
proof -
  let ?ka = "case ka of None \<Rightarrow> [''id''] | Some k \<Rightarrow> k"
  let ?st0 = "\<lparr>totalScanned = 0, itemsWithoutAttribute = 0, successfulUpdates = 0, failedUpdates = 0\<rparr>"
  from assms have run: "processLoop fuel dc t m n ?ka ?st0 None True (init_world s) = (res, w')"
    by (simp add: processTable_def)
  from processLoop_shape[OF run] have ch: "chained t True None (scan_calls (calls w'))"
    by (auto simp: init_world_def)
  have ne: "0 < fuel \<longrightarrow> scan_calls (calls w') \<noteq> []"
  proof
    assume "0 < fuel"
    then obtain f where "fuel = Suc f" by (cases fuel) auto
    with run processLoop_scans_nonempty[of f dc t m n ?ka ?st0 None True "init_world s" res w' "calls w'"]
    show "scan_calls (calls w') \<noteq> []" by (simp add: init_world_def)
  qed
  from chained_nth[OF ch] ne show ?thesis
    by (simp add: scan_command_def Let_def)
qed

theorem processTable_scan_requests_witness:
  "let sc = scan_calls (calls (snd (processTable (Suc (Suc 0)) replayClient ''T'' ''AccountId''
                ''AccountId'' None (init_world two_pages))))
   in length sc = 2
      \<and> fst (sc ! 0) = \<lparr>Scan_TableName = ''T'', Limit = 50, ExclusiveStartKey = None\<rparr>
      \<and> fst (sc ! Suc 0) = \<lparr>Scan_TableName = ''T'', Limit = 100, ExclusiveStartKey = Some token_1\<rparr>"
  using processTable_scan_requests [OF two_pages_run]
  by (simp add: two_pages_run Let_def)

section \<open>The loop ends when no token comes back\<close>

text \<open>
  C6. \<^verbatim>\<open>hasMoreItems\<close> of a scan result is true if and only if the reply carried a
  continuation token. The loop ends exactly when it is false: after a page whose reply
  carried no token the run returns its statistics in that very iteration, whatever fuel
  is left, and after a page whose reply carried a token the loop goes on with that
  token. So in every run a scan reply without a token is the last scan call, a run that
  returns statistics ends on a reply without a token, and a run that is cut off for lack
  of fuel was cut off after a reply with a token. The number of items of a page plays no
  part: after a page with no items and a token, the loop goes on with that token.
\<close>

theorem loop_ends_when_no_token:
  "(scanTableBatch dc t l k w = (Inr sr, w1) \<longrightarrow>
      (\<exists>response. calls w1 = calls w @ [ScanCall (scan_command t l k) (Inr response)]
          \<and> hasMoreItems sr = (LastEvaluatedKey response \<noteq> None)))
   \<and> (processTable fuel dc t m n ka (init_world s) = (res, w') \<longrightarrow>
        (let sc = scan_calls (calls w') in
           (\<forall>i response. i < length sc \<and> snd (sc ! i) = Inr response
                \<and> LastEvaluatedKey response = None \<longrightarrow> Suc i = length sc)
         \<and> (\<forall>st. res = Some (Inr st) \<longrightarrow>
                sc \<noteq> [] \<and> (\<exists>response. snd (last sc) = Inr response
                                  \<and> LastEvaluatedKey response = None))
         \<and> (res = None \<and> 0 < fuel \<longrightarrow>
                sc \<noteq> [] \<and> (\<exists>response. snd (last sc) = Inr response
                                  \<and> LastEvaluatedKey response \<noteq> None))))
   \<and> (scanTableBatch dc t (if isFirst then 50 else 100) lek w = (Inr sr, w1)
        \<and> items sr = [] \<and> hasMoreItems sr \<longrightarrow>
        processLoop (Suc fuel) dc t m n kas stats lek isFirst w =
          processLoop fuel dc t m n kas stats (lastEvaluatedKey sr) False w1)
   \<and> (scanTableBatch dc t (if isFirst then 50 else 100) lek w = (Inr sr, w1)
        \<and> batchUpdateItems dc t (filterItemsFromTable (items sr) m) n kas w1 = (Inr c, w2)
        \<and> \<not> hasMoreItems sr \<longrightarrow>
        processLoop (Suc fuel) dc t m n kas stats lek isFirst w =
          (Some (Inr \<lparr>totalScanned = totalScanned stats + length (items sr),
                       itemsWithoutAttribute = itemsWithoutAttribute stats
                          + length (filterItemsFromTable (items sr) m),
                       successfulUpdates = successfulUpdates stats + successful c,
                       failedUpdates = failedUpdates stats + failed c\<rparr>), w2))
   \<and> (scanTableBatch dc t (if isFirst then 50 else 100) lek w = (Inr sr, w1)
        \<and> batchUpdateItems dc t (filterItemsFromTable (items sr) m) n kas w1 = (Inr c, w2)
        \<and> hasMoreItems sr \<longrightarrow>
        processLoop (Suc fuel) dc t m n kas stats lek isFirst w =
          processLoop fuel dc t m n kas
            \<lparr>totalScanned = totalScanned stats + length (items sr),
             itemsWithoutAttribute = itemsWithoutAttribute stats
                + length (filterItemsFromTable (items sr) m),
             successfulUpdates = successfulUpdates stats + successful c,
             failedUpdates = failedUpdates stats + failed c\<rparr>
            (lastEvaluatedKey sr) False w2)"
proof -
  have p1: "\<exists>response. calls w1 = calls w @ [ScanCall (scan_command t l k) (Inr response)]
          \<and> hasMoreItems sr = (LastEvaluatedKey response \<noteq> None)"
    if "scanTableBatch dc t l k w = (Inr sr, w1)"
    using scanTableBatch_hasMore[OF that] by blast
  have p3: "processLoop (Suc fuel) dc t m n kas stats lek isFirst w =
          processLoop fuel dc t m n kas stats (lastEvaluatedKey sr) False w1"
    if "scanTableBatch dc t (if isFirst then 50 else 100) lek w = (Inr sr, w1)
        \<and> items sr = [] \<and> hasMoreItems sr"
    using that empty_page_continues by blast
  have p4: "processLoop (Suc fuel) dc t m n kas stats lek isFirst w =
          (Some (Inr \<lparr>totalScanned = totalScanned stats + length (items sr),
                       itemsWithoutAttribute = itemsWithoutAttribute stats
                          + length (filterItemsFromTable (items sr) m),
                       successfulUpdates = successfulUpdates stats + successful c,
                       failedUpdates = failedUpdates stats + failed c\<rparr>), w2)"
    if h: "scanTableBatch dc t (if isFirst then 50 else 100) lek w = (Inr sr, w1)
        \<and> batchUpdateItems dc t (filterItemsFromTable (items sr) m) n kas w1 = (Inr c, w2)
        \<and> \<not> hasMoreItems sr"
    using page_ends_or_continues[of dc t isFirst lek w sr w1 m n kas c w2 fuel stats] h by simp
  have p5: "processLoop (Suc fuel) dc t m n kas stats lek isFirst w =
          processLoop fuel dc t m n kas
            \<lparr>totalScanned = totalScanned stats + length (items sr),
             itemsWithoutAttribute = itemsWithoutAttribute stats
                + length (filterItemsFromTable (items sr) m),
             successfulUpdates = successfulUpdates stats + successful c,
             failedUpdates = failedUpdates stats + failed c\<rparr>
            (lastEvaluatedKey sr) False w2"
    if h: "scanTableBatch dc t (if isFirst then 50 else 100) lek w = (Inr sr, w1)
        \<and> batchUpdateItems dc t (filterItemsFromTable (items sr) m) n kas w1 = (Inr c, w2)
        \<and> hasMoreItems sr"
    using page_ends_or_continues[of dc t isFirst lek w sr w1 m n kas c w2 fuel stats] h by simp
  have p2: "let sc = scan_calls (calls w') in
           (\<forall>i response. i < length sc \<and> snd (sc ! i) = Inr response
                \<and> LastEvaluatedKey response = None \<longrightarrow> Suc i = length sc)
         \<and> (\<forall>st. res = Some (Inr st) \<longrightarrow>
                sc \<noteq> [] \<and> (\<exists>response. snd (last sc) = Inr response
                                  \<and> LastEvaluatedKey response = None))
         \<and> (res = None \<and> 0 < fuel \<longrightarrow>
                sc \<noteq> [] \<and> (\<exists>response. snd (last sc) = Inr response
                                  \<and> LastEvaluatedKey response \<noteq> None))"
    if pt: "processTable fuel dc t m n ka (init_world s) = (res, w')"
  proof -
    let ?ka = "case ka of None \<Rightarrow> [''id''] | Some k \<Rightarrow> k"
    let ?st0 = "\<lparr>totalScanned = 0, itemsWithoutAttribute = 0, successfulUpdates = 0, failedUpdates = 0\<rparr>"
    let ?sc = "scan_calls (calls w')"
    from pt have run: "processLoop fuel dc t m n ?ka ?st0 None True (init_world s) = (res, w')"
      by (simp add: processTable_def)
    from processLoop_shape[OF run] have ch: "chained t True None ?sc"
      by (auto simp: init_world_def)
    have a: "\<forall>i response. i < length ?sc \<and> snd (?sc ! i) = Inr response
                  \<and> LastEvaluatedKey response = None \<longrightarrow> Suc i = length ?sc"
    proof (intro allI impI)
      fix i response
      assume h: "i < length ?sc \<and> snd (?sc ! i) = Inr response \<and> LastEvaluatedKey response = None"
      show "Suc i = length ?sc"
      proof (rule ccontr)
        assume "Suc i \<noteq> length ?sc"
        with h have "Suc i < length ?sc" by simp
        with chained_nth[OF ch] h show False by auto
      qed
    qed
    have b: "\<forall>st. res = Some (Inr st) \<longrightarrow>
                  ?sc \<noteq> [] \<and> (\<exists>response. snd (last ?sc) = Inr response
                                    \<and> LastEvaluatedKey response = None)"
    proof (intro allI impI)
      fix st assume "res = Some (Inr st)"
      with run have "processLoop fuel dc t m n ?ka ?st0 None True (init_world s) = (Some (Inr st), w')"
        by simp
      from processLoop_completed[OF this]
      show "?sc \<noteq> [] \<and> (\<exists>response. snd (last ?sc) = Inr response \<and> LastEvaluatedKey response = None)"
        by (auto simp: init_world_def)
    qed
    have c: "res = None \<and> 0 < fuel \<longrightarrow>
                  ?sc \<noteq> [] \<and> (\<exists>response. snd (last ?sc) = Inr response
                                    \<and> LastEvaluatedKey response \<noteq> None)"
    proof
      assume h: "res = None \<and> 0 < fuel"
      with run have "processLoop fuel dc t m n ?ka ?st0 None True (init_world s) = (None, w')"
        by simp
      from processLoop_out_of_fuel[OF this] h
      show "?sc \<noteq> [] \<and> (\<exists>response. snd (last ?sc) = Inr response \<and> LastEvaluatedKey response \<noteq> None)"
        by (auto simp: init_world_def)
    qed
    from a b c show ?thesis by (simp add: Let_def)
  qed
  from p1 p2 p3 p4 p5 show ?thesis by blast
qed

theorem loop_ends_when_no_token_witness:
  "(\<exists>response. calls after_first_scan = [ScanCall (scan_command ''T'' 50 None) (Inr response)]
       \<and> LastEvaluatedKey response \<noteq> None)
   \<and> processLoop (Suc (Suc 0)) replayClient ''T'' ''AccountId'' ''AccountId'' [''id'']
         \<lparr>totalScanned = 0, itemsWithoutAttribute = 0, successfulUpdates = 0, failedUpdates = 0\<rparr>
         None True (init_world two_pages)
       = processLoop (Suc 0) replayClient ''T'' ''AccountId'' ''AccountId'' [''id'']
         \<lparr>totalScanned = 0, itemsWithoutAttribute = 0, successfulUpdates = 0, failedUpdates = 0\<rparr>
         (Some token_1) False after_first_scan
   \<and> processLoop (Suc 0) replayClient ''T'' ''AccountId'' ''AccountId'' [''id'']
         \<lparr>totalScanned = 0, itemsWithoutAttribute = 0, successfulUpdates = 0, failedUpdates = 0\<rparr>
         (Some token_1) False after_first_scan
       = (Some (Inr \<lparr>totalScanned = 3, itemsWithoutAttribute = 2, successfulUpdates = 1,
                      failedUpdates = 1\<rparr>), two_pages_done)
   \<and> processTable (Suc (Suc 0)) replayClient ''T'' ''AccountId'' ''AccountId'' None
         (init_world two_pages)
       = (Some (Inr \<lparr>totalScanned = 3, itemsWithoutAttribute = 2, successfulUpdates = 1,
                      failedUpdates = 1\<rparr>), two_pages_done)
   \<and> map (\<lambda>c. (length (returned_items (snd c)),
                 case snd c of Inl e \<Rightarrow> False | Inr response \<Rightarrow> LastEvaluatedKey response \<noteq> None))
          (scan_calls (calls two_pages_done))
        = [(0, True), (3, False)]"
proof -
  let ?st0 = "\<lparr>totalScanned = 0, itemsWithoutAttribute = 0, successfulUpdates = 0, failedUpdates = 0\<rparr>"
  have first: "scanTableBatch replayClient ''T'' (if True then 50 else 100) None (init_world two_pages) =
     (Inr \<lparr>items = [], lastEvaluatedKey = Some token_1, hasMoreItems = True\<rparr>, after_first_scan)
     \<and> items \<lparr>items = [], lastEvaluatedKey = Some token_1, hasMoreItems = True\<rparr> = []
     \<and> hasMoreItems \<lparr>items = [], lastEvaluatedKey = Some token_1, hasMoreItems = True\<rparr>"
    by (simp add: two_pages_first_scan)
  have second: "scanTableBatch replayClient ''T'' (if False then 50 else 100) (Some token_1)
       after_first_scan =
     (Inr \<lparr>items = [item_a, item_b, item_c], lastEvaluatedKey = None, hasMoreItems = False\<rparr>,
      after_second_scan)
     \<and> batchUpdateItems replayClient ''T''
          (filterItemsFromTable
             (items \<lparr>items = [item_a, item_b, item_c], lastEvaluatedKey = None,
                     hasMoreItems = False\<rparr>) ''AccountId'')
          ''AccountId'' [''id''] after_second_scan
        = (Inr \<lparr>successful = 1, failed = 1\<rparr>, two_pages_done)
     \<and> \<not> hasMoreItems \<lparr>items = [item_a, item_b, item_c], lastEvaluatedKey = None,
                          hasMoreItems = False\<rparr>"
    by (simp add: two_pages_second_scan two_pages_selected two_pages_batch)
  have c1: "\<exists>response. calls after_first_scan = [ScanCall (scan_command ''T'' 50 None) (Inr response)]
       \<and> LastEvaluatedKey response \<noteq> None"
    using loop_ends_when_no_token [THEN conjunct1, THEN mp, OF two_pages_first_scan]
    by (simp add: init_world_def)
  have c3: "processLoop (Suc (Suc 0)) replayClient ''T'' ''AccountId'' ''AccountId'' [''id''] ?st0
         None True (init_world two_pages)
       = processLoop (Suc 0) replayClient ''T'' ''AccountId'' ''AccountId'' [''id''] ?st0
         (Some token_1) False after_first_scan"
    using loop_ends_when_no_token [THEN conjunct2, THEN conjunct2, THEN conjunct1, THEN mp, OF first,
             of "Suc 0" "''AccountId''" "''AccountId''" "[''id'']" ?st0]
    by simp
  have c4: "processLoop (Suc 0) replayClient ''T'' ''AccountId'' ''AccountId'' [''id''] ?st0
         (Some token_1) False after_first_scan
       = (Some (Inr \<lparr>totalScanned = 3, itemsWithoutAttribute = 2, successfulUpdates = 1,
                      failedUpdates = 1\<rparr>), two_pages_done)"
    using loop_ends_when_no_token [THEN conjunct2, THEN conjunct2, THEN conjunct2, THEN conjunct1,
             THEN mp, OF second, of 0 ?st0]
    by (simp add: two_pages_selected)
  have c5: "processTable (Suc (Suc 0)) replayClient ''T'' ''AccountId'' ''AccountId'' None
         (init_world two_pages)
       = (Some (Inr \<lparr>totalScanned = 3, itemsWithoutAttribute = 2, successfulUpdates = 1,
                      failedUpdates = 1\<rparr>), two_pages_done)"
    using c3 c4 by (simp add: processTable_def)
  have c2: "map (\<lambda>c. (length (returned_items (snd c)),
                 case snd c of Inl e \<Rightarrow> False | Inr response \<Rightarrow> LastEvaluatedKey response \<noteq> None))
          (scan_calls (calls two_pages_done))
        = [(0, True), (3, False)]"
    using loop_ends_when_no_token [THEN conjunct2, THEN conjunct1, THEN mp, OF c5]
    by (simp add: two_pages_done_def Let_def page_items_def)
  from c1 c3 c4 c5 c2 show ?thesis by (intro conjI)
qed

section \<open>A failed scan ends the run\<close>

text \<open>
  C7. What the scan call throws, \<^verbatim>\<open>scanTableBatch\<close> throws again. In every run, a
  failed scan call is the last call of the run, and the run ends with the thrown value
  and without statistics.
\<close>

theorem scan_failure_aborts_run:
  "(sendScan dc (scan_command t l k) (store w) = (Inl e, s1) \<longrightarrow>
      scanTableBatch dc t l k w =
        (Inl e, \<lparr>store = s1, calls = calls w @ [ScanCall (scan_command t l k) (Inl e)]\<rparr>))
   \<and> (processTable fuel dc t m n ka (init_world s) = (res, w')
        \<and> (inp, Inl e') \<in> set (scan_calls (calls w')) \<longrightarrow>
        res = Some (Inl e') \<and> last (calls w') = ScanCall inp (Inl e'))"
proof -
  have a: "scanTableBatch dc t l k w =
        (Inl e, \<lparr>store = s1, calls = calls w @ [ScanCall (scan_command t l k) (Inl e)]\<rparr>)"
    if "sendScan dc (scan_command t l k) (store w) = (Inl e, s1)"
    using that by (simp add: scanTableBatch_def send_scan_def)
  have b: "res = Some (Inl e') \<and> last (calls w') = ScanCall inp (Inl e')"
    if h: "processTable fuel dc t m n ka (init_world s) = (res, w')
        \<and> (inp, Inl e') \<in> set (scan_calls (calls w'))"
  proof -
    from h have "processLoop fuel dc t m n (case ka of None \<Rightarrow> [''id''] | Some k \<Rightarrow> k)
      \<lparr>totalScanned = 0, itemsWithoutAttribute = 0, successfulUpdates = 0, failedUpdates = 0\<rparr>
      None True (init_world s) = (res, w')"
      by (simp add: processTable_def)
    from processLoop_scan_failure[OF this] h show ?thesis
      by (auto simp: init_world_def)
  qed
  from a b show ?thesis by blast
qed

theorem scan_failure_aborts_run_witness:
  "scanTableBatch replayClient ''T'' 50 None (init_world timeout_now) =
        (Inl (JsError ''timeout''),
         \<lparr>store = \<lparr>scan_replies = [], update_replies = []\<rparr>,
          calls = [ScanCall (scan_command ''T'' 50 None) (Inl (JsError ''timeout''))]\<rparr>)
   \<and> fst (processTable (Suc (Suc (Suc 0))) replayClient ''T'' ''AccountId'' ''AccountId''
               (Some [''id'']) (init_world failing_scan)) = Some (Inl (JsError ''timeout''))
   \<and> length (scan_calls (calls (snd (processTable (Suc (Suc (Suc 0))) replayClient ''T''
               ''AccountId'' ''AccountId'' (Some [''id'']) (init_world failing_scan))))) = 2"
proof -
  have send: "sendScan replayClient (scan_command ''T'' 50 None) (store (init_world timeout_now))
                = (Inl (JsError ''timeout''), \<lparr>scan_replies = [], update_replies = []\<rparr>)"
    by (simp add: replayClient_def replay_scan_def init_world_def timeout_now_def)
  have c1: "scanTableBatch replayClient ''T'' 50 None (init_world timeout_now) =
        (Inl (JsError ''timeout''),
         \<lparr>store = \<lparr>scan_replies = [], update_replies = []\<rparr>,
          calls = [ScanCall (scan_command ''T'' 50 None) (Inl (JsError ''timeout''))]\<rparr>)"
    using scan_failure_aborts_run [THEN conjunct1, THEN mp, OF send]
    by (simp add: init_world_def)
  have hyp: "processTable (Suc (Suc (Suc 0))) replayClient ''T'' ''AccountId'' ''AccountId''
               (Some [''id'']) (init_world failing_scan) =
     (Some (Inl (JsError ''timeout'')),
      \<lparr>store = \<lparr>scan_replies = [Inr \<lparr>Items = Some [item_a], LastEvaluatedKey = None\<rparr>],
                update_replies = []\<rparr>,
       calls =
         [ScanCall (scan_command ''T'' 50 None)
            (Inr \<lparr>Items = Some [item_b], LastEvaluatedKey = Some token_1\<rparr>),
          ScanCall (scan_command ''T'' 100 (Some token_1)) (Inl (JsError ''timeout''))]\<rparr>)
     \<and> (scan_command ''T'' 100 (Some token_1), Inl (JsError ''timeout''))
        \<in> set (scan_calls (calls \<lparr>store = \<lparr>scan_replies = [Inr \<lparr>Items = Some [item_a], LastEvaluatedKey = None\<rparr>],
                update_replies = []\<rparr>,
       calls =
         [ScanCall (scan_command ''T'' 50 None)
            (Inr \<lparr>Items = Some [item_b], LastEvaluatedKey = Some token_1\<rparr>),
          ScanCall (scan_command ''T'' 100 (Some token_1)) (Inl (JsError ''timeout''))]\<rparr>))"
    by (simp add: failing_scan_run)
  have c2: "fst (processTable (Suc (Suc (Suc 0))) replayClient ''T'' ''AccountId'' ''AccountId''
               (Some [''id'']) (init_world failing_scan)) = Some (Inl (JsError ''timeout''))"
    using scan_failure_aborts_run [THEN conjunct2, THEN mp, OF hyp]
    by (simp add: failing_scan_run)
  have c3: "length (scan_calls (calls (snd (processTable (Suc (Suc (Suc 0))) replayClient ''T''
               ''AccountId'' ''AccountId'' (Some [''id'']) (init_world failing_scan))))) = 2"
    by (simp add: failing_scan_run)
  from c1 c2 c3 show ?thesis by (intro conjI)
qed

section \<open>Running twice\<close>





section \<open>The number of scanned items\<close>

text \<open>
  C9. In a run that returns statistics, \<^verbatim>\<open>totalScanned\<close> is the sum, over the scan
  calls of the run, of the number of items the reply carried, whatever limit was asked.
\<close>

theorem totalScanned_is_sum_of_pages:
  assumes "processTable fuel dc t m n ka (init_world s) = (Some (Inr st), w')"
  shows "totalScanned st =
           sum_list (map (\<lambda>c. length (returned_items (snd c))) (scan_calls (calls w')))"
proof -
  from assms have "processLoop fuel dc t m n (case ka of None \<Rightarrow> [''id''] | Some k \<Rightarrow> k)
      \<lparr>totalScanned = 0, itemsWithoutAttribute = 0, successfulUpdates = 0, failedUpdates = 0\<rparr>
      None True (init_world s) = (Some (Inr st), w')"
    by (simp add: processTable_def)
  from processLoop_completed[OF this] show ?thesis
    by (auto simp: init_world_def)
qed

theorem totalScanned_is_sum_of_pages_witness:
  "let run = processTable (Suc (Suc 0)) replayClient ''T'' ''AccountId'' ''AccountId'' None
               (init_world two_pages)
   in map (\<lambda>c. (Limit (fst c), length (returned_items (snd c)))) (scan_calls (calls (snd run)))
         = [(50, 0), (100, 3)]
      \<and> map_option (map_sum id totalScanned) (fst run) = Some (Inr 3)"
  using totalScanned_is_sum_of_pages [OF two_pages_run]
  by (simp add: two_pages_run Let_def scan_command_def page_items_def)

section \<open>The default key attributes\<close>

text \<open>
  C10. A call of \<^verbatim>\<open>processTable\<close> without \<^verbatim>\<open>keyAttributes\<close> is the call with
  \<^verbatim>\<open>['id']\<close>: the key of every update call holds at most the attribute
  \<^verbatim>\<open>id\<close>, with the value a selected item of a scanned page has under it, whatever
  the store's key schema is.
\<close>

theorem processTable_default_keyAttributes:
  "processTable fuel dc t m n None w = processTable fuel dc t m n (Some [''id'']) w
   \<and> (processTable fuel dc t m n None (init_world s) = (res, w') \<longrightarrow>
        (\<forall>u \<in> set (update_calls (calls w')).
           dom (Key (fst u)) \<subseteq> {''id''}
           \<and> (\<exists>c \<in> set (scan_calls (calls w')).
                \<exists>it \<in> set (filterItemsFromTable (returned_items (snd c)) m).
                   Key (fst u) =
                     (if get_prop it ''id'' \<noteq> JUndefined
                      then [''id'' \<mapsto> get_prop it ''id''] else Map.empty))))"
proof (intro conjI impI)
  show "processTable fuel dc t m n None w = processTable fuel dc t m n (Some [''id'']) w"
    by (simp add: processTable_def)
next
  assume "processTable fuel dc t m n None (init_world s) = (res, w')"
  then have "processLoop fuel dc t m n [''id'']
      \<lparr>totalScanned = 0, itemsWithoutAttribute = 0, successfulUpdates = 0, failedUpdates = 0\<rparr>
      None True (init_world s) = (res, w')"
    by (simp add: processTable_def)
  from processLoop_keys[OF this] have k:
    "\<forall>u \<in> set (update_calls (calls w')). \<exists>c \<in> set (scan_calls (calls w')).
        \<exists>it \<in> set (filterItemsFromTable (returned_items (snd c)) m).
           Key (fst u) = build_key it [''id'']"
    by (auto simp: init_world_def)
  show "\<forall>u \<in> set (update_calls (calls w')).
           dom (Key (fst u)) \<subseteq> {''id''}
           \<and> (\<exists>c \<in> set (scan_calls (calls w')).
                \<exists>it \<in> set (filterItemsFromTable (returned_items (snd c)) m).
                   Key (fst u) =
                     (if get_prop it ''id'' \<noteq> JUndefined
                      then [''id'' \<mapsto> get_prop it ''id''] else Map.empty))"
  proof
    fix u assume "u \<in> set (update_calls (calls w'))"
    with k obtain c it where c: "c \<in> set (scan_calls (calls w'))"
      and it: "it \<in> set (filterItemsFromTable (returned_items (snd c)) m)"
      and key: "Key (fst u) = build_key it [''id'']" by blast
    from key have "dom (Key (fst u)) \<subseteq> {''id''}"
      by (simp add: build_key_id)
    moreover from c it key have "\<exists>c \<in> set (scan_calls (calls w')).
                \<exists>it \<in> set (filterItemsFromTable (returned_items (snd c)) m).
                   Key (fst u) =
                     (if get_prop it ''id'' \<noteq> JUndefined
                      then [''id'' \<mapsto> get_prop it ''id''] else Map.empty)"
      unfolding build_key_id by blast
    ultimately show "dom (Key (fst u)) \<subseteq> {''id''}
           \<and> (\<exists>c \<in> set (scan_calls (calls w')).
                \<exists>it \<in> set (filterItemsFromTable (returned_items (snd c)) m).
                   Key (fst u) =
                     (if get_prop it ''id'' \<noteq> JUndefined
                      then [''id'' \<mapsto> get_prop it ''id''] else Map.empty))"
      by blast
  qed
qed


theorem processTable_default_keyAttributes_witness:
  "processTable (Suc (Suc 0)) replayClient ''T'' ''AccountId'' ''AccountId'' None
       (init_world two_pages)
     = processTable (Suc (Suc 0)) replayClient ''T'' ''AccountId'' ''AccountId''
         (Some [''id'']) (init_world two_pages)
   \<and> map (\<lambda>u. Key (fst u))
       (update_calls (calls (snd (processTable (Suc (Suc 0)) replayClient ''T'' ''AccountId''
           ''AccountId'' None (init_world two_pages)))))
      = [[''id'' \<mapsto> JStr ''a''], [''id'' \<mapsto> JStr ''c'']]"
proof -
  have c1: "processTable (Suc (Suc 0)) replayClient ''T'' ''AccountId'' ''AccountId'' None
       (init_world two_pages)
     = processTable (Suc (Suc 0)) replayClient ''T'' ''AccountId'' ''AccountId''
         (Some [''id'']) (init_world two_pages)"
    by (rule processTable_default_keyAttributes [THEN conjunct1])
  have c2: "map (\<lambda>u. Key (fst u))
       (update_calls (calls (snd (processTable (Suc (Suc 0)) replayClient ''T'' ''AccountId''
           ''AccountId'' None (init_world two_pages)))))
      = [[''id'' \<mapsto> JStr ''a''], [''id'' \<mapsto> JStr ''c'']]"
    using processTable_default_keyAttributes [THEN conjunct2, THEN mp, OF two_pages_run]
    by (simp add: two_pages_run update_command_def)
  from c1 c2 show ?thesis by (intro conjI)
qed

end
